theory Spec2Isabelle
  imports Main "HOL-Library.Sublist"
begin

section \<open>The line protocol of the bridge\<close>

text \<open>
  The bridge (\<^verbatim>\<open>internal/bridge/bridge.go\<close>) relays between a parent process on
  standard input/output and TCP peers. Go strings are byte strings: they are modelled as
  \<^typ>\<open>string\<close>, one \<^typ>\<open>char\<close> per byte.
\<close>

definition delim :: char where
  "delim = CHR '':''"

definition prefixAddress :: string where
  "prefixAddress = ''a''"

definition prefixConnect :: string where
  "prefixConnect = ''c''"

definition prefixDisconnect :: string where
  "prefixDisconnect = ''d''"

definition prefixReceive :: string where
  "prefixReceive = ''r''"

text \<open>
  The two format strings of the source, \<^verbatim>\<open>"%s:%s\n"\<close> and \<^verbatim>\<open>"%s:%s:%s\n"\<close>,
  applied to string arguments.
\<close>

definition Sprintf2 :: "string \<Rightarrow> string \<Rightarrow> string" where
  "Sprintf2 a b = a @ '':'' @ b @ [CHR 0x0A]"

definition Sprintf3 :: "string \<Rightarrow> string \<Rightarrow> string \<Rightarrow> string" where
  "Sprintf3 a b c = a @ '':'' @ b @ '':'' @ c @ [CHR 0x0A]"

subsection \<open>strings.TrimSpace\<close>

text \<open>
  \<^verbatim>\<open>strings.TrimSpace\<close> removes, first from the front and then from the back, every
  rune for which \<^verbatim>\<open>unicode.IsSpace\<close> holds. On the bytes of a string that is: as long
  as the string starts (ends) with the UTF-8 encoding of such a rune, that encoding is
  cut off. The runes are U+0009 to U+000D, U+0020, U+0085, U+00A0, U+1680, U+2000 to
  U+200A, U+2028, U+2029, U+202F, U+205F and U+3000; invalid UTF-8 decodes to U+FFFD,
  which is not in the table.
\<close>

definition spaceEncodings :: "string list" where
  "spaceEncodings =
    [[CHR 0x09], [CHR 0x0A], [CHR 0x0B], [CHR 0x0C], [CHR 0x0D], [CHR 0x20],
     [CHR 0xC2, CHR 0x85], [CHR 0xC2, CHR 0xA0],
     [CHR 0xE1, CHR 0x9A, CHR 0x80],
     [CHR 0xE2, CHR 0x80, CHR 0x80], [CHR 0xE2, CHR 0x80, CHR 0x81],
     [CHR 0xE2, CHR 0x80, CHR 0x82], [CHR 0xE2, CHR 0x80, CHR 0x83],
     [CHR 0xE2, CHR 0x80, CHR 0x84], [CHR 0xE2, CHR 0x80, CHR 0x85],
     [CHR 0xE2, CHR 0x80, CHR 0x86], [CHR 0xE2, CHR 0x80, CHR 0x87],
     [CHR 0xE2, CHR 0x80, CHR 0x88], [CHR 0xE2, CHR 0x80, CHR 0x89],
     [CHR 0xE2, CHR 0x80, CHR 0x8A],
     [CHR 0xE2, CHR 0x80, CHR 0xA8], [CHR 0xE2, CHR 0x80, CHR 0xA9],
     [CHR 0xE2, CHR 0x80, CHR 0xAF],
     [CHR 0xE2, CHR 0x81, CHR 0x9F],
     [CHR 0xE3, CHR 0x80, CHR 0x80]]"

text \<open>The width in bytes of the white space rune at the front (at the back), 0 if there is none.\<close>

definition leadingSpace :: "string \<Rightarrow> nat" where
  "leadingSpace s =
     (case find (\<lambda>e. prefix e s) spaceEncodings of None \<Rightarrow> 0 | Some e \<Rightarrow> length e)"

definition trailingSpace :: "string \<Rightarrow> nat" where
  "trailingSpace s =
     (case find (\<lambda>e. suffix e s) spaceEncodings of None \<Rightarrow> 0 | Some e \<Rightarrow> length e)"


function TrimLeftSpace :: "string \<Rightarrow> string" where
  "TrimLeftSpace s = (if leadingSpace s = 0 then s else TrimLeftSpace (drop (leadingSpace s) s))"
  by pat_completeness auto
termination
proof (relation "measure length")
  fix s assume "leadingSpace s \<noteq> 0"
  moreover have "leadingSpace s \<le> length s"
    by (auto simp: leadingSpace_def prefix_length_le dest: find_Some_iff[THEN iffD1]
        split: option.splits)
  ultimately show "(drop (leadingSpace s) s, s) \<in> measure length"
    by (cases s) auto
qed simp

function TrimRightSpace :: "string \<Rightarrow> string" where
  "TrimRightSpace s =
     (if trailingSpace s = 0 then s
      else TrimRightSpace (take (length s - trailingSpace s) s))"
  by pat_completeness auto
termination
proof (relation "measure length")
  fix s assume "trailingSpace s \<noteq> 0"
  moreover have "trailingSpace s \<le> length s"
    by (auto simp: trailingSpace_def suffix_length_le dest: find_Some_iff[THEN iffD1]
        split: option.splits)
  ultimately show "(take (length s - trailingSpace s) s, s) \<in> measure length"
    by (cases s) auto
qed simp

declare TrimLeftSpace.simps [simp del] TrimRightSpace.simps [simp del]

definition TrimSpace :: "string \<Rightarrow> string" where
  "TrimSpace s = TrimRightSpace (TrimLeftSpace s)"



subsection \<open>strings.SplitN\<close>

text \<open>
  \<^verbatim>\<open>strings.SplitN(s, sep, n)\<close> for a separator of one byte: at most \<open>n\<close> pieces,
  the last one being the unsplit rest.
\<close>

fun SplitN :: "string \<Rightarrow> char \<Rightarrow> nat \<Rightarrow> string list" where
  "SplitN s sep 0 = []"
| "SplitN s sep (Suc 0) = [s]"
| "SplitN s sep (Suc (Suc n)) =
     (if sep \<in> set s
      then takeWhile (\<lambda>c. c \<noteq> sep) s # SplitN (tl (dropWhile (\<lambda>c. c \<noteq> sep) s)) sep (Suc n)
      else [s])"

subsection \<open>net.SplitHostPort\<close>

datatype addr_error =
    MissingPort
  | TooManyColons
  | MissingBracket
  | UnexpectedOpen
  | UnexpectedClose

definition IndexByte :: "string \<Rightarrow> char \<Rightarrow> nat option" where
  "IndexByte s c = (if c \<in> set s then Some (length (takeWhile (\<lambda>x. x \<noteq> c) s)) else None)"

definition LastIndexByte :: "string \<Rightarrow> char \<Rightarrow> nat option" where
  "LastIndexByte s c =
     (if c \<in> set s then Some (length s - Suc (length (takeWhile (\<lambda>x. x \<noteq> c) (rev s))))
      else None)"

text \<open>
  The checks of \<^verbatim>\<open>net.SplitHostPort\<close> in their order: the port starts after the last
  colon; a host in brackets ends just before that colon; no further colon or bracket.
\<close>

definition checkBrackets ::
  "string \<Rightarrow> nat \<Rightarrow> nat \<Rightarrow> nat \<Rightarrow> string \<Rightarrow> addr_error + string \<times> string" where
  "checkBrackets hostport j k i host =
     (if CHR ''['' \<in> set (drop j hostport) then Inl UnexpectedOpen
      else if CHR '']'' \<in> set (drop k hostport) then Inl UnexpectedClose
      else Inr (host, drop (Suc i) hostport))"

definition SplitHostPort :: "string \<Rightarrow> addr_error + string \<times> string" where
  "SplitHostPort hostport =
     (case LastIndexByte hostport CHR '':'' of
        None \<Rightarrow> Inl MissingPort
      | Some i \<Rightarrow>
          if hostport ! 0 = CHR ''[''
          then (case IndexByte hostport CHR '']'' of
                  None \<Rightarrow> Inl MissingBracket
                | Some e \<Rightarrow>
                    if Suc e = length hostport then Inl MissingPort
                    else if Suc e = i
                    then checkBrackets hostport 1 (Suc e) i (take (e - 1) (drop 1 hostport))
                    else if hostport ! Suc e = CHR '':'' then Inl TooManyColons
                    else Inl MissingPort)
          else if CHR '':'' \<in> set (take i hostport) then Inl TooManyColons
          else checkBrackets hostport 0 0 i (take i hostport))"

section \<open>Errors, log lines and the buffered writer\<close>

text \<open>
  What \<^verbatim>\<open>ReadString\<close> can return as its error: the two values the handlers compare
  with, and any other error value (numbered), such as a cancelled context.
\<close>

datatype io_error = EOF | ErrClosedPipe | ErrOther nat

text \<open>
  The error of \<^verbatim>\<open>listener.Accept\<close>: a value that implements \<^verbatim>\<open>net.Error\<close>, with
  what its \<^verbatim>\<open>Temporary()\<close> answers, or a value that does not.
\<close>

datatype accept_error = NetError bool | PlainError

text \<open>The errors the bridge returns, one constructor per \<^verbatim>\<open>fmt.Errorf\<close> of the source.\<close>

datatype error =
    FailedToListen
  | FailedToWriteListenAddress
  | FailedToFlush
  | FailedToReadIncoming io_error
  | ListenerIsNil
  | FailedToAccept accept_error
  | FailedToSplitRemoteAddr string
  | FailedToWriteConnected string
  | FailedToReadOutgoing io_error
  | ErrorFailedToFlush

type_synonym conn = nat

text \<open>The lines written with \<^verbatim>\<open>log.Printf\<close>, one constructor per call of the source.\<close>

datatype log_entry =
    WarnSyntax string
  | WarnNoConnection string
  | WarnWriteToConn string string
  | WarnWriteDisconnection conn
  | ErrorFlushDisconnection
  | WarnWriteReceived string conn

text \<open>
  \<^verbatim>\<open>bufio.Writer\<close>: the bytes buffered and the sticky error. After a failed write every
  later \<^verbatim>\<open>WriteString\<close> and \<^verbatim>\<open>Flush\<close> of the same writer fails. The boolean
  argument says whether the underlying stream accepts the bytes, should the call reach it.
  \<^verbatim>\<open>Flush\<close> hands the buffer to the stream in one piece; the stream is the list of
  the pieces it received.
\<close>

record writer =
  buffered :: string
  failed :: bool

definition NewWriter :: writer where
  "NewWriter = \<lparr>buffered = [], failed = False\<rparr>"

definition WriteString :: "writer \<Rightarrow> string \<Rightarrow> bool \<Rightarrow> bool \<times> writer" where
  "WriteString w s ok =
     (if failed w then (False, w)
      else if ok then (True, w\<lparr>buffered := buffered w @ s\<rparr>)
      else (False, w\<lparr>failed := True\<rparr>))"

definition Flush :: "writer \<Rightarrow> string list \<Rightarrow> bool \<Rightarrow> bool \<times> writer \<times> string list" where
  "Flush w stream ok =
     (if failed w then (False, w, stream)
      else if buffered w = [] then (True, w, stream)
      else if ok then (True, w\<lparr>buffered := []\<rparr>, stream @ [buffered w])
      else (False, w\<lparr>failed := True\<rparr>, stream))"

section \<open>The bridge\<close>

text \<open>
  The struct \<^verbatim>\<open>bridge\<close> with what its streams and sockets have seen: \<open>out\<close> is the
  output stream (the pieces flushed to it, in order), \<open>logs\<close> the log, \<open>sent c\<close> the
  arguments of the successful \<^verbatim>\<open>Write\<close> calls on socket \<open>c\<close>, \<open>closed c\<close> whether
  \<^verbatim>\<open>Close\<close> was called on it. The listener is its bound address.

  The handlers read and write the streams through the wrappers of the package
  \<^verbatim>\<open>ctxio\<close>, whose source is not at hand, and the sockets through \<^verbatim>\<open>net.Conn\<close>.
  What a read returns and whether a write is accepted is therefore given to every
  iteration of a loop from outside, without any restriction. A write that fails leaves no
  trace in \<open>out\<close> and \<open>sent\<close>: these hold what was written in full.
\<close>

record bridge =
  listener :: "string option"
  connMap :: "string \<rightharpoonup> conn"
  out :: "string list"
  logs :: "log_entry list"
  sent :: "conn \<Rightarrow> string list"
  closed :: "conn \<Rightarrow> bool"

definition New :: bridge where
  "New = \<lparr>listener = None, connMap = Map.empty, out = [], logs = [],
          sent = (\<lambda>_. []), closed = (\<lambda>_. False)\<rparr>"

definition printf :: "log_entry \<Rightarrow> bridge \<Rightarrow> bridge" where
  "printf l b = b\<lparr>logs := logs b @ [l]\<rparr>"

text \<open>One pass through the body of a handler's loop either goes round again or returns.\<close>

datatype flow = Continue | Return "error option"

subsection \<open>handleIncoming\<close>

text \<open>
  What one iteration meets: the result \<open>(data, err)\<close> of \<^verbatim>\<open>ReadString\<close> on the input
  stream and whether the \<^verbatim>\<open>Write\<close> on the socket succeeds, should it be reached.
\<close>

record incoming_input =
  in_data :: string
  in_err :: "io_error option"
  in_write_ok :: bool

definition incoming_body :: "bridge \<Rightarrow> incoming_input \<Rightarrow> flow \<times> bridge" where
  "incoming_body b i =
     (case in_err i of
        Some err \<Rightarrow>
          if err = EOF \<or> err = ErrClosedPipe then (Return None, b)
          else (Return (Some (FailedToReadIncoming err)), b)
      | None \<Rightarrow>
          let text = TrimSpace (in_data i);
              m = SplitN text delim 2
          in if length m \<noteq> 2 then (Continue, printf (WarnSyntax text) b)
             else
               let port = m ! 0;
                   expr = m ! 1
               in (case connMap b port of
                     None \<Rightarrow> (Continue, printf (WarnNoConnection port) b)
                   | Some c \<Rightarrow>
                       if in_write_ok i
                       then (Continue, b\<lparr>sent := (sent b)(c := sent b c @ [expr])\<rparr>)
                       else (Continue, printf (WarnWriteToConn expr port) b)))"


subsection \<open>handleAccept\<close>

text \<open>
  What one iteration meets: the result of \<^verbatim>\<open>Accept\<close> (an error, or a socket with its
  remote address) and whether the output stream accepts the connect line.
\<close>

datatype accept_result = AcceptError accept_error | Accepted conn string

record accept_input =
  ac_result :: accept_result
  ac_write_ok :: bool
  ac_flush_ok :: bool

text \<open>The third component is the handler started with \<^verbatim>\<open>g.Go\<close>, if any.\<close>

definition accept_body ::
  "bridge \<Rightarrow> accept_input \<Rightarrow> flow \<times> bridge \<times> (string \<times> conn) option" where
  "accept_body b a =
     (case ac_result a of
        AcceptError err \<Rightarrow>
          (case err of
             NetError True \<Rightarrow> (Continue, b, None)
           | _ \<Rightarrow> (Return (Some (FailedToAccept err)), b, None))
      | Accepted c addr \<Rightarrow>
          (case SplitHostPort addr of
             Inl _ \<Rightarrow> (Return (Some (FailedToSplitRemoteAddr addr)), b, None)
           | Inr (host, port) \<Rightarrow>
               let b1 = b\<lparr>connMap := (connMap b)(port \<mapsto> c)\<rparr>;
                   (ok, w) = WriteString NewWriter (Sprintf2 prefixConnect port) (ac_write_ok a)
               in if \<not> ok then (Return (Some (FailedToWriteConnected port)), b1, None)
                  else
                    let (ok', w', out') = Flush w (out b1) (ac_flush_ok a)
                    in if \<not> ok' then (Return (Some FailedToFlush), b1, None)
                       else (Continue, b1\<lparr>out := out'\<rparr>, Some (port, c))))"

fun accept_loop ::
  "bridge \<Rightarrow> accept_input list \<Rightarrow> (string \<times> conn) list \<Rightarrow>
   (error option \<times> bridge) option \<times> (string \<times> conn) list" where
  "accept_loop b [] started = (None, started)"
| "accept_loop b (a # as) started =
     (case accept_body b a of
        (Continue, b', h) \<Rightarrow> accept_loop b' as (started @ (case h of None \<Rightarrow> [] | Some x \<Rightarrow> [x]))
      | (Return r, b', h) \<Rightarrow> (Some (r, b'), started))"

text \<open>
  The result and the handlers started, in order. \<open>None\<close> as the result: the acceptor has
  not returned, it waits in \<^verbatim>\<open>Accept\<close>.
\<close>

definition handleAccept ::
  "bridge \<Rightarrow> accept_input list \<Rightarrow> (error option \<times> bridge) option \<times> (string \<times> conn) list" where
  "handleAccept b as =
     (if listener b = None then (Some (Some ListenerIsNil, b), [])
      else accept_loop b as [])"

subsection \<open>handleOutgoing\<close>

text \<open>
  What one iteration meets: the result of \<^verbatim>\<open>ReadString\<close> on the socket and whether the
  output stream accepts the \<^verbatim>\<open>WriteString\<close> and the \<^verbatim>\<open>Flush\<close> issued next (those of
  the receive line, or of the disconnect line when the read ends the loop).
\<close>

record outgoing_input =
  og_data :: string
  og_err :: "io_error option"
  og_write_ok :: bool
  og_flush_ok :: bool

definition outgoing_body ::
  "string \<Rightarrow> conn \<Rightarrow> bridge \<Rightarrow> writer \<Rightarrow> outgoing_input \<Rightarrow> flow \<times> bridge \<times> writer" where
  "outgoing_body port c b w i =
     (case og_err i of
        Some err \<Rightarrow>
          if err = EOF \<or> err = ErrClosedPipe then (Return None, b, w)
          else (Return (Some (FailedToReadOutgoing err)), b, w)
      | None \<Rightarrow>
          let text = TrimSpace (og_data i);
              (ok, w1) = WriteString w (Sprintf3 prefixReceive port text) (og_write_ok i)
          in if \<not> ok then (Continue, printf (WarnWriteReceived (og_data i) c) b, w1)
             else
               let (ok', w2, out') = Flush w1 (out b) (og_flush_ok i)
               in if \<not> ok' then (Return (Some ErrorFailedToFlush), b, w2)
                  else (Continue, b\<lparr>out := out'\<rparr>, w2))"

text \<open>The deferred function of \<^verbatim>\<open>handleOutgoing\<close>.\<close>

definition outgoing_deferred ::
  "string \<Rightarrow> conn \<Rightarrow> bridge \<Rightarrow> writer \<Rightarrow> bool \<Rightarrow> bool \<Rightarrow> bridge \<times> writer" where
  "outgoing_deferred port c b w write_ok flush_ok =
     (let (ok, w1) = WriteString w (Sprintf2 prefixDisconnect port) write_ok;
          b1 = (if \<not> ok then printf (WarnWriteDisconnection c) b else b);
          (ok', w2, out') = Flush w1 (out b1) flush_ok;
          b2 = (if \<not> ok' then printf ErrorFlushDisconnection b1 else b1\<lparr>out := out'\<rparr>)
      in (b2\<lparr>connMap := (connMap b2)(port := None), closed := (closed b2)(c := True)\<rparr>, w2))"

text \<open>One iteration with the deferred function run when the body returns.\<close>

definition outgoing_iteration ::
  "string \<Rightarrow> conn \<Rightarrow> bridge \<Rightarrow> writer \<Rightarrow> outgoing_input \<Rightarrow> flow \<times> bridge \<times> writer" where
  "outgoing_iteration port c b w i =
     (case outgoing_body port c b w i of
        (Continue, b', w') \<Rightarrow> (Continue, b', w')
      | (Return r, b', w') \<Rightarrow>
          (Return r, outgoing_deferred port c b' w' (og_write_ok i) (og_flush_ok i)))"



subsection \<open>Start: the handlers running together\<close>

text \<open>
  The tasks of the \<^verbatim>\<open>errgroup\<close>: the incoming handler, the acceptor and one outgoing
  handler for each accepted connection, each either in its loop or returned. The group
  keeps the first error returned by a task. A run of the session is a list of events;
  each event lets one task go through one iteration of its loop with what the iteration
  meets, so the list fixes the order in which the iterations of the tasks take their
  effect on the shared state. An event for a task that has returned, or for a handler
  that was never started, changes nothing. The acceptor of a session is in its loop: the
  check of the listener at the head of \<^verbatim>\<open>handleAccept\<close> is behind it, since
  \<^verbatim>\<open>Start\<close> sets the listener before it starts the tasks.
\<close>

datatype task = Running | Exited "error option"

record handler =
  h_port :: string
  h_conn :: conn
  h_writer :: writer
  h_task :: task

record session =
  br :: bridge
  incoming :: task
  accepting :: task
  outgoing :: "handler list"
  group_err :: "error option"

definition group_return :: "error option \<Rightarrow> session \<Rightarrow> session" where
  "group_return r s = (case group_err s of None \<Rightarrow> s\<lparr>group_err := r\<rparr> | Some _ \<Rightarrow> s)"

datatype event =
    Incoming incoming_input
  | Accepting accept_input
  | Outgoing nat outgoing_input

definition go :: "(string \<times> conn) option \<Rightarrow> handler list" where
  "go h = (case h of
             None \<Rightarrow> []
           | Some (port, c) \<Rightarrow>
               [\<lparr>h_port = port, h_conn = c, h_writer = NewWriter, h_task = Running\<rparr>])"

definition step :: "session \<Rightarrow> event \<Rightarrow> session" where
  "step s e =
     (case e of
        Incoming i \<Rightarrow>
          if incoming s \<noteq> Running then s
          else (case incoming_body (br s) i of
                  (Continue, b') \<Rightarrow> s\<lparr>br := b'\<rparr>
                | (Return r, b') \<Rightarrow> group_return r (s\<lparr>br := b', incoming := Exited r\<rparr>))
      | Accepting a \<Rightarrow>
          if accepting s \<noteq> Running then s
          else (case accept_body (br s) a of
                  (Continue, b', h) \<Rightarrow> s\<lparr>br := b', outgoing := outgoing s @ go h\<rparr>
                | (Return r, b', h) \<Rightarrow> group_return r (s\<lparr>br := b', accepting := Exited r\<rparr>))
      | Outgoing k i \<Rightarrow>
          if \<not> k < length (outgoing s) then s
          else
            let h = outgoing s ! k
            in if h_task h \<noteq> Running then s
               else (case outgoing_iteration (h_port h) (h_conn h) (br s) (h_writer h) i of
                       (Continue, b', w') \<Rightarrow>
                         s\<lparr>br := b', outgoing := (outgoing s)[k := h\<lparr>h_writer := w'\<rparr>]\<rparr>
                     | (Return r, b', w') \<Rightarrow>
                         group_return r
                           (s\<lparr>br := b',
                              outgoing := (outgoing s)[k := h\<lparr>h_writer := w', h_task := Exited r\<rparr>]\<rparr>)))"

fun run :: "session \<Rightarrow> event list \<Rightarrow> session" where
  "run s [] = s"
| "run s (e # es) = run (step s e) es"

text \<open>
  The start of \<^verbatim>\<open>Start\<close>: \<^verbatim>\<open>net.Listen\<close> fails or gives a listener with its
  address, and the address line is written and flushed.
\<close>

record start_input =
  st_listen :: "string option"
  st_write_ok :: bool
  st_flush_ok :: bool

definition start_session :: "bridge \<Rightarrow> start_input \<Rightarrow> error + session" where
  "start_session b i =
     (case st_listen i of
        None \<Rightarrow> Inl FailedToListen
      | Some addr \<Rightarrow>
          let b1 = b\<lparr>listener := Some addr\<rparr>;
              (ok, w) = WriteString NewWriter (Sprintf2 prefixAddress addr) (st_write_ok i)
          in if \<not> ok then Inl FailedToWriteListenAddress
             else
               let (ok', w', out') = Flush w (out b1) (st_flush_ok i)
               in if \<not> ok' then Inl FailedToFlush
                  else Inr \<lparr>br = b1\<lparr>out := out'\<rparr>, incoming = Running, accepting = Running,
                            outgoing = [], group_err = None\<rparr>)"

text \<open>\<^verbatim>\<open>g.Wait\<close> returns the group's error once every task has returned.\<close>

definition Wait :: "session \<Rightarrow> error option option" where
  "Wait s =
     (if incoming s \<noteq> Running \<and> accepting s \<noteq> Running
         \<and> list_all (\<lambda>h. h_task h \<noteq> Running) (outgoing s)
      then Some (group_err s) else None)"

definition Start :: "bridge \<Rightarrow> start_input \<Rightarrow> event list \<Rightarrow> error option option" where
  "Start b i es =
     (case start_session b i of
        Inl e \<Rightarrow> Some (Some e)
      | Inr s \<Rightarrow> Wait (run s es))"

subsection \<open>The lines about one connection on the output stream\<close>












text \<open>The codec of the protocol as the handlers use it: encode a line, decode a line.\<close>

definition decode :: "string \<Rightarrow> (string \<times> string) option" where
  "decode line =
     (let m = SplitN (TrimSpace line) delim 2
      in if length m \<noteq> 2 then None else Some (m ! 0, m ! 1))"


section \<open>Lemmas on the string functions\<close>

lemma leadingSpace_le: "leadingSpace s \<le> length s"
  by (auto simp: leadingSpace_def prefix_length_le dest: find_Some_iff[THEN iffD1]
      split: option.splits)

lemma trailingSpace_le: "trailingSpace s \<le> length s"
  by (auto simp: trailingSpace_def suffix_length_le dest: find_Some_iff[THEN iffD1]
      split: option.splits)

lemma spaceEncodings_nonempty: "e \<in> set spaceEncodings \<Longrightarrow> e \<noteq> []"
  by (auto simp: spaceEncodings_def)

lemma delim_not_space: "e \<in> set spaceEncodings \<Longrightarrow> delim \<notin> set e"
  by (auto simp: spaceEncodings_def delim_def)

lemma find_Some_mem: "find P xs = Some x \<Longrightarrow> x \<in> set xs \<and> P x"
  by (auto simp: find_Some_iff)

lemma leadingSpace_zero_iff: "leadingSpace s = 0 \<longleftrightarrow> (\<forall>e\<in>set spaceEncodings. \<not> prefix e s)"
proof (cases "find (\<lambda>e. prefix e s) spaceEncodings")
  case None
  moreover from None have "\<forall>e\<in>set spaceEncodings. \<not> prefix e s"
    by (simp add: find_None_iff)
  ultimately show ?thesis by (simp add: leadingSpace_def)
next
  case (Some e)
  then have "e \<in> set spaceEncodings \<and> prefix e s" by (rule find_Some_mem)
  with Some show ?thesis
    using spaceEncodings_nonempty[of e] by (auto simp: leadingSpace_def)
qed

lemma trailingSpace_zero_iff: "trailingSpace s = 0 \<longleftrightarrow> (\<forall>e\<in>set spaceEncodings. \<not> suffix e s)"
proof (cases "find (\<lambda>e. suffix e s) spaceEncodings")
  case None
  moreover from None have "\<forall>e\<in>set spaceEncodings. \<not> suffix e s"
    by (simp add: find_None_iff)
  ultimately show ?thesis by (simp add: trailingSpace_def)
next
  case (Some e)
  then have "e \<in> set spaceEncodings \<and> suffix e s" by (rule find_Some_mem)
  with Some show ?thesis
    using spaceEncodings_nonempty[of e] by (auto simp: trailingSpace_def)
qed

lemma prefix_before_char: "c \<notin> set e \<Longrightarrow> prefix e (x @ c # r) \<longleftrightarrow> prefix e x"
  by (auto simp: prefix_append prefix_Cons)

lemma suffix_after_char: "c \<notin> set e \<Longrightarrow> suffix e (x @ c # y) \<longleftrightarrow> suffix e y"
  using prefix_before_char[of c "rev e" "rev y" "rev x"] by (simp add: suffix_to_prefix)

lemma leadingSpace_before_delim: "leadingSpace (x @ delim # r) = leadingSpace x"
proof -
  have "find (\<lambda>e. prefix e (x @ delim # r)) spaceEncodings = find (\<lambda>e. prefix e x) spaceEncodings"
    by (rule find_cong) (simp_all add: prefix_before_char delim_not_space)
  then show ?thesis by (simp add: leadingSpace_def)
qed

lemma trailingSpace_after_delim: "trailingSpace (x @ delim # y) = trailingSpace y"
proof -
  have "find (\<lambda>e. suffix e (x @ delim # y)) spaceEncodings = find (\<lambda>e. suffix e y) spaceEncodings"
    by (rule find_cong) (simp_all add: suffix_after_char delim_not_space)
  then show ?thesis by (simp add: trailingSpace_def)
qed

lemma TrimLeftSpace_before_delim: "TrimLeftSpace (x @ delim # r) = TrimLeftSpace x @ delim # r"
proof (induction x rule: TrimLeftSpace.induct)
  case (1 s)
  show ?case
  proof (cases "leadingSpace s = 0")
    case True
    then show ?thesis
      using TrimLeftSpace.simps[of s] TrimLeftSpace.simps[of "s @ delim # r"]
      by (simp add: leadingSpace_before_delim)
  next
    case False
    have "drop (leadingSpace s) (s @ delim # r) = drop (leadingSpace s) s @ delim # r"
      using leadingSpace_le[of s] by simp
    with False 1 show ?thesis
      using TrimLeftSpace.simps[of s] TrimLeftSpace.simps[of "s @ delim # r"]
      by (simp add: leadingSpace_before_delim)
  qed
qed

lemma TrimRightSpace_after_delim: "TrimRightSpace (x @ delim # y) = x @ delim # TrimRightSpace y"
proof (induction y rule: TrimRightSpace.induct)
  case (1 s)
  show ?case
  proof (cases "trailingSpace s = 0")
    case True
    then show ?thesis
      using TrimRightSpace.simps[of s] TrimRightSpace.simps[of "x @ delim # s"]
      by (simp add: trailingSpace_after_delim)
  next
    case False
    have "take (length (x @ delim # s) - trailingSpace s) (x @ delim # s)
          = x @ delim # take (length s - trailingSpace s) s"
      using trailingSpace_le[of s] by (simp add: Suc_diff_le)
    with False 1 show ?thesis
      using TrimRightSpace.simps[of s] TrimRightSpace.simps[of "x @ delim # s"]
      by (simp add: trailingSpace_after_delim)
  qed
qed

lemma TrimSpace_around_delim: "TrimSpace (x @ delim # y) = TrimLeftSpace x @ delim # TrimRightSpace y"
  by (simp add: TrimSpace_def TrimLeftSpace_before_delim TrimRightSpace_after_delim)

lemma trailingSpace_newline: "trailingSpace (y @ [CHR 0x0A]) = 1"
  by (simp add: trailingSpace_def spaceEncodings_def suffix_to_prefix)

lemma TrimRightSpace_newline: "TrimRightSpace (y @ [CHR 0x0A]) = TrimRightSpace y"
  using TrimRightSpace.simps[of "y @ [CHR 0x0A]"] by (simp add: trailingSpace_newline)

lemma leadingSpace_TrimLeftSpace: "leadingSpace (TrimLeftSpace s) = 0"
  by (induction s rule: TrimLeftSpace.induct) (metis TrimLeftSpace.simps)

lemma trailingSpace_TrimRightSpace: "trailingSpace (TrimRightSpace s) = 0"
  by (induction s rule: TrimRightSpace.induct) (metis TrimRightSpace.simps)

lemma TrimRightSpace_prefix: "prefix (TrimRightSpace s) s"
proof (induction s rule: TrimRightSpace.induct)
  case (1 s)
  show ?case
  proof (cases "trailingSpace s = 0")
    case True
    then show ?thesis using TrimRightSpace.simps[of s] by simp
  next
    case False
    with 1 have "prefix (TrimRightSpace s) (take (length s - trailingSpace s) s)"
      using TrimRightSpace.simps[of s] by simp
    then show ?thesis
      by (meson prefix_order.trans take_is_prefix)
  qed
qed

lemma TrimLeftSpace_suffix: "suffix (TrimLeftSpace s) s"
proof (induction s rule: TrimLeftSpace.induct)
  case (1 s)
  show ?case
  proof (cases "leadingSpace s = 0")
    case True
    then show ?thesis using TrimLeftSpace.simps[of s] by simp
  next
    case False
    with 1 have "suffix (TrimLeftSpace s) (drop (leadingSpace s) s)"
      using TrimLeftSpace.simps[of s] by simp
    then show ?thesis
      by (meson suffix_order.trans suffix_drop)
  qed
qed

lemma leadingSpace_TrimSpace: "leadingSpace (TrimSpace s) = 0"
  unfolding TrimSpace_def leadingSpace_zero_iff
proof
  fix e assume e: "e \<in> set spaceEncodings"
  have "\<not> prefix e (TrimLeftSpace s)"
    using leadingSpace_TrimLeftSpace[of s] e by (simp add: leadingSpace_zero_iff)
  then show "\<not> prefix e (TrimRightSpace (TrimLeftSpace s))"
    using TrimRightSpace_prefix[of "TrimLeftSpace s"] by (meson prefix_order.trans)
qed

lemma trailingSpace_TrimSpace: "trailingSpace (TrimSpace s) = 0"
  by (simp add: TrimSpace_def trailingSpace_TrimRightSpace)

lemma SplitN_2: "SplitN s sep 2 =
    (if sep \<in> set s then [takeWhile (\<lambda>c. c \<noteq> sep) s, tl (dropWhile (\<lambda>c. c \<noteq> sep) s)] else [s])"
  by (simp add: numeral_2_eq_2)

lemma SplitN_2_at_first:
  assumes "sep \<notin> set x"
  shows "SplitN (x @ sep # y) sep 2 = [x, y]"
proof -
  from assms have "\<forall>c\<in>set x. c \<noteq> sep" by auto
  then have "takeWhile (\<lambda>c. c \<noteq> sep) (x @ sep # y) = x"
    and "dropWhile (\<lambda>c. c \<noteq> sep) (x @ sep # y) = sep # y"
    by (simp_all add: takeWhile_append2 dropWhile_append2)
  then show ?thesis by (simp add: SplitN_2)
qed

lemma length_SplitN_2: "length (SplitN s sep 2) = 2 \<longleftrightarrow> sep \<in> set s"
  by (simp add: SplitN_2)

lemma decode_Some_iff:
  "decode line = Some (a, r) \<longleftrightarrow> (delim \<notin> set a \<and> TrimSpace line = a @ delim # r)"
proof
  assume "decode line = Some (a, r)"
  then have m: "delim \<in> set (TrimSpace line)"
    and a: "a = takeWhile (\<lambda>c. c \<noteq> delim) (TrimSpace line)"
    and r: "r = tl (dropWhile (\<lambda>c. c \<noteq> delim) (TrimSpace line))"
    by (auto simp: decode_def Let_def SplitN_2 split: if_splits)
  from m have "dropWhile (\<lambda>c. c \<noteq> delim) (TrimSpace line) \<noteq> []" by simp
  moreover from this have "hd (dropWhile (\<lambda>c. c \<noteq> delim) (TrimSpace line)) = delim"
    using hd_dropWhile[of "\<lambda>c. c \<noteq> delim" "TrimSpace line"] by simp
  ultimately have "dropWhile (\<lambda>c. c \<noteq> delim) (TrimSpace line) = delim # r"
    using r by (cases "dropWhile (\<lambda>c. c \<noteq> delim) (TrimSpace line)") auto
  then have "TrimSpace line = a @ delim # r"
    using a takeWhile_dropWhile_id[of "\<lambda>c. c \<noteq> delim" "TrimSpace line"] by simp
  moreover have "delim \<notin> set a"
    using a set_takeWhileD[of delim "\<lambda>c. c \<noteq> delim" "TrimSpace line"] by auto
  ultimately show "delim \<notin> set a \<and> TrimSpace line = a @ delim # r" by simp
next
  assume "delim \<notin> set a \<and> TrimSpace line = a @ delim # r"
  then show "decode line = Some (a, r)"
    by (simp add: decode_def Let_def SplitN_2_at_first)
qed

lemma decode_None_iff: "decode line = None \<longleftrightarrow> delim \<notin> set (TrimSpace line)"
  by (simp add: decode_def Let_def SplitN_2)

lemma incoming_body_decode:
  "incoming_body b i =
     (case in_err i of
        Some err \<Rightarrow>
          if err = EOF \<or> err = ErrClosedPipe then (Return None, b)
          else (Return (Some (FailedToReadIncoming err)), b)
      | None \<Rightarrow>
          (case decode (in_data i) of
             None \<Rightarrow> (Continue, printf (WarnSyntax (TrimSpace (in_data i))) b)
           | Some (port, expr) \<Rightarrow>
               (case connMap b port of
                  None \<Rightarrow> (Continue, printf (WarnNoConnection port) b)
                | Some c \<Rightarrow>
                    if in_write_ok i
                    then (Continue, b\<lparr>sent := (sent b)(c := sent b c @ [expr])\<rparr>)
                    else (Continue, printf (WarnWriteToConn expr port) b))))"
  by (simp add: incoming_body_def decode_def Let_def split: option.splits)



lemma group_err_group_return:
  "group_err (group_return r s) = (case group_err s of None \<Rightarrow> r | Some x \<Rightarrow> Some x)"
  by (simp add: group_return_def split: option.splits)

lemma group_return_fields:
  "br (group_return r s) = br s" "incoming (group_return r s) = incoming s"
  "accepting (group_return r s) = accepting s" "outgoing (group_return r s) = outgoing s"
  by (simp_all add: group_return_def split: option.splits)

lemma group_err_step_kept: "group_err s = Some x \<Longrightarrow> group_err (step s e) = Some x"
  by (auto simp: step_def Let_def group_err_group_return
      split: event.splits prod.splits flow.splits)

lemma group_err_run_kept: "group_err s = Some x \<Longrightarrow> group_err (run s es) = Some x"
  by (induction es arbitrary: s) (simp_all add: group_err_step_kept)


section \<open>The incoming handler\<close>




section \<open>The outgoing handler\<close>

lemmas trim_defs = TrimSpace_def TrimLeftSpace.simps TrimRightSpace.simps leadingSpace_def
  trailingSpace_def spaceEncodings_def suffix_to_prefix

lemmas line_defs = Sprintf2_def Sprintf3_def prefixAddress_def prefixConnect_def
  prefixDisconnect_def prefixReceive_def

lemmas writer_defs = WriteString_def Flush_def NewWriter_def


lemma Sprintf3_nonempty: "Sprintf3 a b c \<noteq> []"
  by (simp add: Sprintf3_def)











section \<open>Recoverable conditions of the incoming handler\<close>



section \<open>The acceptor\<close>

lemma accept_body_temporary:
  "ac_result a = AcceptError (NetError True) \<Longrightarrow> accept_body b a = (Continue, b, None)"
  by (simp add: accept_body_def)

lemma accept_body_fatal:
  "ac_result a = AcceptError err \<Longrightarrow> err \<noteq> NetError True \<Longrightarrow>
   accept_body b a = (Return (Some (FailedToAccept err)), b, None)"
  by (cases err) (auto simp: accept_body_def split: bool.splits)

lemma accept_loop_temporary:
  "\<forall>a\<in>set pre. ac_result a = AcceptError (NetError True) \<Longrightarrow>
   accept_loop b (pre @ rest) started = accept_loop b rest started"
  for pre :: "accept_input list"
  by (induction pre) (simp_all add: accept_body_temporary)

text \<open>
  Claim C8, as the code has it. In the loop of \<open>handleAccept\<close> an accept error that
  the network layer classifies as temporary is skipped: the loop goes on with the next
  \<open>Accept\<close> and the state, the log included, is unchanged. Every other accept error
  ends the loop with an error wrapping it; when no task has failed before, that error is
  the error of the task group from then on.
\<close>

theorem accept_error_handling:
  fixes a :: accept_input
  assumes "ac_result a = AcceptError err"
  shows "(err = NetError True \<longrightarrow>
            accept_body b a = (Continue, b, None)
            \<and> (\<forall>(pre :: accept_input list) post.
                  (\<forall>x\<in>set pre. ac_result x = AcceptError (NetError True)) \<longrightarrow>
                  handleAccept b (pre @ a # post) = handleAccept b post)
            \<and> (accepting s = Running \<longrightarrow> step s (Accepting a) = s))
       \<and> (err \<noteq> NetError True \<longrightarrow>
            accept_body b a = (Return (Some (FailedToAccept err)), b, None)
            \<and> (\<forall>(pre :: accept_input list) post.
                  listener b \<noteq> None
                  \<and> (\<forall>x\<in>set pre. ac_result x = AcceptError (NetError True)) \<longrightarrow>
                  handleAccept b (pre @ a # post) = (Some (Some (FailedToAccept err), b), []))
            \<and> (accepting s = Running \<longrightarrow>
                  accepting (step s (Accepting a)) = Exited (Some (FailedToAccept err)))
            \<and> (accepting s = Running \<and> group_err s = None \<longrightarrow>
                  (\<forall>es. group_err (run (step s (Accepting a)) es) = Some (FailedToAccept err))))"
proof (cases "err = NetError True")
  case True
  note body = accept_body_temporary[of a, OF assms[unfolded True]]
  have "handleAccept b (pre @ a # post) = handleAccept b post"
    if "\<forall>x\<in>set pre. ac_result x = AcceptError (NetError True)"
    for pre :: "accept_input list" and post
    using that accept_loop_temporary[of pre b "a # post" "[]"]
    by (simp add: handleAccept_def body)
  moreover have "step s (Accepting a) = s" if "accepting s = Running"
    using that by (simp add: step_def body go_def)
  ultimately show ?thesis using True body by simp
next
  case False
  note body = accept_body_fatal[OF assms False]
  have "handleAccept b (pre @ a # post) = (Some (Some (FailedToAccept err), b), [])"
    if "listener b \<noteq> None \<and> (\<forall>x\<in>set pre. ac_result x = AcceptError (NetError True))"
    for pre :: "accept_input list" and post
    using that accept_loop_temporary[of pre b "a # post" "[]"]
    by (simp add: handleAccept_def body)
  moreover have "accepting (step s (Accepting a)) = Exited (Some (FailedToAccept err))"
    if "accepting s = Running"
    using that by (simp add: step_def body group_return_fields)
  moreover have "group_err (run (step s (Accepting a)) es) = Some (FailedToAccept err)"
    if "accepting s = Running \<and> group_err s = None" for es
  proof -
    from that have "group_err (step s (Accepting a)) = Some (FailedToAccept err)"
      by (simp add: step_def body group_err_group_return)
    then show ?thesis by (rule group_err_run_kept)
  qed
  ultimately show ?thesis using False body by simp
qed

theorem accept_error_handling_witness:
  "ac_result \<lparr>ac_result = AcceptError (NetError True), ac_write_ok = True, ac_flush_ok = True\<rparr>
     = AcceptError (NetError True)
   \<and> ac_result \<lparr>ac_result = AcceptError (NetError False), ac_write_ok = True, ac_flush_ok = True\<rparr>
     = AcceptError (NetError False)
   \<and> NetError False \<noteq> NetError True
   \<and> listener (New\<lparr>listener := Some ''127.0.0.1:4000''\<rparr>) \<noteq> None
   \<and> handleAccept (New\<lparr>listener := Some ''127.0.0.1:4000''\<rparr>)
        ([\<lparr>ac_result = AcceptError (NetError True), ac_write_ok = True, ac_flush_ok = True\<rparr>]
         @ \<lparr>ac_result = AcceptError (NetError True), ac_write_ok = True, ac_flush_ok = True\<rparr>
         # [\<lparr>ac_result = AcceptError (NetError False), ac_write_ok = True, ac_flush_ok = True\<rparr>])
       = (Some (Some (FailedToAccept (NetError False)), New\<lparr>listener := Some ''127.0.0.1:4000''\<rparr>), [])
   \<and> accepting \<lparr>br = New, incoming = Running, accepting = Running, outgoing = [],
                 group_err = None\<rparr> = Running
   \<and> group_err \<lparr>br = New, incoming = Running, accepting = Running, outgoing = [],
                 group_err = None\<rparr> = None
   \<and> step \<lparr>br = New, incoming = Running, accepting = Running, outgoing = [], group_err = None\<rparr>
        (Accepting \<lparr>ac_result = AcceptError (NetError True), ac_write_ok = True, ac_flush_ok = True\<rparr>)
       = \<lparr>br = New, incoming = Running, accepting = Running, outgoing = [], group_err = None\<rparr>
   \<and> accepting (step \<lparr>br = New, incoming = Running, accepting = Running, outgoing = [],
                      group_err = None\<rparr>
        (Accepting \<lparr>ac_result = AcceptError (NetError False), ac_write_ok = True, ac_flush_ok = True\<rparr>))
       = Exited (Some (FailedToAccept (NetError False)))
   \<and> group_err (run (step \<lparr>br = New, incoming = Running, accepting = Running, outgoing = [],
                      group_err = None\<rparr>
        (Accepting \<lparr>ac_result = AcceptError (NetError False), ac_write_ok = True, ac_flush_ok = True\<rparr>)) [])
       = Some (FailedToAccept (NetError False))"
proof -
  let ?t = "\<lparr>ac_result = AcceptError (NetError True), ac_write_ok = True, ac_flush_ok = True\<rparr>"
  let ?f = "\<lparr>ac_result = AcceptError (NetError False), ac_write_ok = True, ac_flush_ok = True\<rparr>"
  let ?b = "New\<lparr>listener := Some ''127.0.0.1:4000''\<rparr>"
  let ?s = "\<lparr>br = New, incoming = Running, accepting = Running, outgoing = [], group_err = None\<rparr>"
  have ht: "ac_result ?t = AcceptError (NetError True)" by simp
  have hf: "ac_result ?f = AcceptError (NetError False)" by simp
  have ne: "NetError False \<noteq> NetError True" by simp
  have run: "accepting ?s = Running" "accepting ?s = Running \<and> group_err ?s = None" by simp_all
  have pre: "\<forall>x\<in>set [?t]. ac_result x = AcceptError (NetError True)" by simp
  have pre0: "listener ?b \<noteq> None
      \<and> (\<forall>x\<in>set ([] :: accept_input list). ac_result x = AcceptError (NetError True))"
    by simp
  note Tt = accept_error_handling[OF ht, of ?b ?s, THEN conjunct1, THEN mp, OF refl]
  note Tf = accept_error_handling[OF hf, of ?b ?s, THEN conjunct2, THEN mp, OF ne]
  note Tf0 = accept_error_handling[OF hf, of New ?s, THEN conjunct2, THEN mp, OF ne]
  have "handleAccept ?b ([?t] @ ?t # [?f]) = handleAccept ?b [?f]"
    using Tt[THEN conjunct2, THEN conjunct1, THEN spec, of "[?t]", THEN spec, of "[?f]",
        THEN mp, OF pre] .
  moreover have "handleAccept ?b ([] @ ?f # []) = (Some (Some (FailedToAccept (NetError False)), ?b), [])"
    using Tf[THEN conjunct2, THEN conjunct1, THEN spec, of "[]", THEN spec, of "[]",
        THEN mp, OF pre0] .
  moreover have "step ?s (Accepting ?t) = ?s"
    using Tt[THEN conjunct2, THEN conjunct2, THEN mp, OF run(1)] .
  moreover have "accepting (step ?s (Accepting ?f)) = Exited (Some (FailedToAccept (NetError False)))"
    using Tf0[THEN conjunct2, THEN conjunct2, THEN conjunct1, THEN mp, OF run(1)] .
  moreover have "group_err (run (step ?s (Accepting ?f)) []) = Some (FailedToAccept (NetError False))"
    using Tf0[THEN conjunct2, THEN conjunct2, THEN conjunct2, THEN mp, OF run(2), THEN spec, of "[]"] .
  ultimately show ?thesis by simp
qed

text \<open>
  The claim as stated has the temporary error logged. The code writes no log line for it:
  after the iteration the log is what it was.
\<close>

theorem accept_temporary_not_logged:
  "logs (fst (snd (accept_body New
      \<lparr>ac_result = AcceptError (NetError True), ac_write_ok = True, ac_flush_ok = True\<rparr>))) = []
   \<and> fst (accept_body New
      \<lparr>ac_result = AcceptError (NetError True), ac_write_ok = True, ac_flush_ok = True\<rparr>) = Continue"
  by (simp add: accept_body_def New_def)


section \<open>Write and flush failures of the outgoing handler\<close>







section \<open>What the incoming handler writes to a socket\<close>

lemma TrimLeftSpace_subset: "set (TrimLeftSpace s) \<subseteq> set s"
  using TrimLeftSpace_suffix[of s] by (rule set_mono_suffix)

lemma TrimLeftSpace_id: "leadingSpace s = 0 \<Longrightarrow> TrimLeftSpace s = s"
  using TrimLeftSpace.simps[of s] by simp

lemma TrimRightSpace_id: "trailingSpace s = 0 \<Longrightarrow> TrimRightSpace s = s"
  using TrimRightSpace.simps[of s] by simp

lemma TrimSpace_command:
  "TrimSpace (ident @ delim # expr @ [CHR 0x0A]) = TrimLeftSpace ident @ delim # TrimRightSpace expr"
  by (simp add: TrimSpace_around_delim TrimRightSpace_newline)

lemma decode_command:
  assumes "delim \<notin> set ident"
  shows "decode (ident @ delim # expr @ [CHR 0x0A]) = Some (TrimLeftSpace ident, TrimRightSpace expr)"
proof -
  have "delim \<notin> set (TrimLeftSpace ident)"
    using assms TrimLeftSpace_subset[of ident] by auto
  then show ?thesis
    by (simp add: decode_Some_iff TrimSpace_command)
qed

text \<open>
  Claim C1, as the code has it. The line is trimmed before it is split. For a command
  line \<open>id:expr\<close> with its newline, where \<open>id\<close> has no delimiter and, with its
  leading white space removed, is in the registry, one \<open>Write\<close> on that connection's
  socket gets the bytes of \<open>expr\<close> with its trailing white space removed and nothing
  after them: exactly the bytes of \<open>expr\<close> when it does not end in white space.
\<close>

theorem incoming_writes_expr:
  fixes i :: incoming_input
  assumes "in_err i = None"
    and "in_data i = ident @ delim # expr @ [CHR 0x0A]"
    and "delim \<notin> set ident"
    and "connMap b (TrimLeftSpace ident) = Some c"
    and "in_write_ok i"
  shows "incoming_body b i
           = (Continue, b\<lparr>sent := (sent b)(c := sent b c @ [TrimRightSpace expr])\<rparr>)
       \<and> trailingSpace (TrimRightSpace expr) = 0
       \<and> (trailingSpace expr = 0 \<longrightarrow> TrimRightSpace expr = expr)
       \<and> (leadingSpace ident = 0 \<longrightarrow> TrimLeftSpace ident = ident)"
  using assms
  by (simp add: incoming_body_decode decode_command trailingSpace_TrimRightSpace
      TrimLeftSpace_id TrimRightSpace_id)

theorem incoming_writes_expr_witness:
  "in_err \<lparr>in_data = ''80:a:b c\<newline>'', in_err = None, in_write_ok = True\<rparr> = None
   \<and> in_data \<lparr>in_data = ''80:a:b c\<newline>'', in_err = None, in_write_ok = True\<rparr>
       = ''80'' @ delim # ''a:b c'' @ [CHR 0x0A]
   \<and> delim \<notin> set ''80''
   \<and> connMap (New\<lparr>connMap := [''80'' \<mapsto> 0]\<rparr>) (TrimLeftSpace ''80'') = Some 0
   \<and> in_write_ok \<lparr>in_data = ''80:a:b c\<newline>'', in_err = None, in_write_ok = True\<rparr>
   \<and> leadingSpace ''80'' = 0 \<and> trailingSpace ''a:b c'' = 0
   \<and> sent (snd (incoming_body (New\<lparr>connMap := [''80'' \<mapsto> 0]\<rparr>)
        \<lparr>in_data = ''80:a:b c\<newline>'', in_err = None, in_write_ok = True\<rparr>)) 0 = [''a:b c'']"
proof -
  let ?i = "\<lparr>in_data = ''80:a:b c\<newline>'', in_err = None, in_write_ok = True\<rparr>"
  let ?b = "New\<lparr>connMap := [''80'' \<mapsto> 0]\<rparr>"
  have h1: "in_err ?i = None" by simp
  have h2: "in_data ?i = ''80'' @ delim # ''a:b c'' @ [CHR 0x0A]" by (simp add: delim_def)
  have h3: "delim \<notin> set ''80''" by (simp add: delim_def)
  have l: "leadingSpace ''80'' = 0" by (simp add: leadingSpace_def spaceEncodings_def)
  have t: "trailingSpace ''a:b c'' = 0"
    by (simp add: trailingSpace_def spaceEncodings_def suffix_to_prefix)
  have h4: "connMap ?b (TrimLeftSpace ''80'') = Some 0"
    by (simp add: TrimLeftSpace_id[OF l] New_def)
  have h5: "in_write_ok ?i" by simp
  note T = incoming_writes_expr[OF h1 h2 h3 h4 h5]
  from T t have "TrimRightSpace ''a:b c'' = ''a:b c''" by blast
  with T have "sent (snd (incoming_body ?b ?i)) 0 = [''a:b c'']"
    by (simp add: New_def)
  with h1 h2 h3 h4 h5 l t show ?thesis by simp
qed

text \<open>
  The claim as stated has the bytes of \<open>expr\<close> written unmodified. For the command
  line \<open>80:hi\<close> followed by a blank and the newline, \<open>expr\<close> ends in the blank and
  the socket gets \<open>hi\<close> without it.
\<close>

theorem incoming_expr_trimmed:
  "sent (snd (incoming_body (New\<lparr>connMap := [''80'' \<mapsto> 0]\<rparr>)
        \<lparr>in_data = ''80:hi \<newline>'', in_err = None, in_write_ok = True\<rparr>)) 0 = [''hi'']
   \<and> ''80:hi \<newline>'' = ''80'' @ '':'' @ ''hi '' @ ''\<newline>''
   \<and> ''hi'' \<noteq> ''hi ''"
proof -
  have "TrimSpace ''80:hi \<newline>'' = ''80:hi''" by (simp add: trim_defs)
  then show ?thesis
    by (simp add: incoming_body_def SplitN_2 delim_def New_def Let_def)
qed


section \<open>Encoding and decoding a line\<close>

lemma Sprintf3_shape: "Sprintf3 tag a b = tag @ delim # (a @ delim # b) @ [CHR 0x0A]"
  by (simp add: Sprintf3_def delim_def)

text \<open>
  Claim C4, as the code has it. The line is split at its first delimiter only, after it
  was trimmed. For a tag without a delimiter, decoding the line encoded from the tag and
  the fields \<open>a\<close> and \<open>b\<close> gives the tag without its leading white space and the
  remainder \<open>a:b\<close> without the trailing white space of \<open>b\<close>, so the remainder may
  hold delimiters. It gives the tag itself and \<open>a:b\<close> when the tag does not start and
  \<open>b\<close> does not end with white space, as is the case for the four tags of the
  protocol; splitting the remainder at its first delimiter gives back \<open>a\<close> and
  \<open>b\<close> when \<open>a\<close> has no delimiter.
\<close>

theorem decode_encode:
  assumes "delim \<notin> set tag"
  shows "decode (Sprintf3 tag a b) = Some (TrimLeftSpace tag, a @ delim # TrimRightSpace b)
       \<and> (leadingSpace tag = 0 \<and> trailingSpace b = 0 \<longrightarrow>
            decode (Sprintf3 tag a b) = Some (tag, a @ delim # b))
       \<and> (delim \<notin> set a \<longrightarrow> SplitN (a @ delim # b) delim 2 = [a, b])
       \<and> (\<forall>t\<in>set [prefixAddress, prefixConnect, prefixDisconnect, prefixReceive].
            delim \<notin> set t \<and> leadingSpace t = 0)"
proof -
  have d: "decode (Sprintf3 tag a b) = Some (TrimLeftSpace tag, a @ delim # TrimRightSpace b)"
    using decode_command[OF assms, of "a @ delim # b"]
    by (simp add: Sprintf3_shape TrimRightSpace_after_delim)
  have "\<forall>t\<in>set [prefixAddress, prefixConnect, prefixDisconnect, prefixReceive].
          delim \<notin> set t \<and> leadingSpace t = 0"
    by (simp add: line_defs delim_def leadingSpace_def spaceEncodings_def)
  with d show ?thesis
    by (simp add: TrimLeftSpace_id TrimRightSpace_id SplitN_2_at_first)
qed

theorem decode_encode_witness:
  "delim \<notin> set prefixReceive \<and> leadingSpace prefixReceive = 0 \<and> trailingSpace ''a:b'' = 0
   \<and> delim \<notin> set ''80''
   \<and> decode (Sprintf3 prefixReceive ''80'' ''a:b'') = Some (prefixReceive, ''80'' @ delim # ''a:b'')
   \<and> SplitN (''80'' @ delim # ''a:b'') delim 2 = [''80'', ''a:b'']
   \<and> delim \<notin> set prefixConnect \<and> leadingSpace prefixConnect = 0"
proof -
  have h: "delim \<notin> set prefixReceive" by (simp add: line_defs delim_def)
  have l: "leadingSpace prefixReceive = 0 \<and> trailingSpace ''a:b'' = 0"
    by (simp add: line_defs leadingSpace_def trailingSpace_def spaceEncodings_def suffix_to_prefix)
  have a: "delim \<notin> set ''80''" by (simp add: delim_def)
  note T = decode_encode[OF h, of "''80''" "''a:b''"]
  have "decode (Sprintf3 prefixReceive ''80'' ''a:b'') = Some (prefixReceive, ''80'' @ delim # ''a:b'')"
    using T[THEN conjunct2, THEN conjunct1, THEN mp, OF l] .
  moreover have "SplitN (''80'' @ delim # ''a:b'') delim 2 = [''80'', ''a:b'']"
    using T[THEN conjunct2, THEN conjunct2, THEN conjunct1, THEN mp, OF a] .
  moreover have "delim \<notin> set prefixConnect \<and> leadingSpace prefixConnect = 0"
    using T[THEN conjunct2, THEN conjunct2, THEN conjunct2] by simp
  ultimately show ?thesis using h l a by simp
qed

text \<open>
  The claim as stated holds for every pair of fields. With a delimiter in the first field
  the second split does not give the fields back, and white space at the end of the
  second field is lost in the remainder.
\<close>

theorem decode_encode_fields_lost:
  "decode (Sprintf3 prefixReceive ''x:y'' ''z'') = Some (''r'', ''x:y:z'')
   \<and> SplitN ''x:y:z'' delim 2 = [''x'', ''y:z'']
   \<and> [''x'', ''y:z''] \<noteq> [''x:y'', ''z'']
   \<and> decode (Sprintf3 prefixReceive ''80'' ''hi '') = Some (''r'', ''80:hi'')
   \<and> ''80:hi'' \<noteq> ''80'' @ '':'' @ ''hi ''"
proof -
  have "TrimSpace ''r:x:y:z\<newline>'' = ''r:x:y:z''" by (simp add: trim_defs)
  moreover have "TrimSpace ''r:80:hi \<newline>'' = ''r:80:hi''" by (simp add: trim_defs)
  ultimately show ?thesis
    by (simp add: decode_def line_defs SplitN_2 delim_def Let_def)
qed

section \<open>The payload of a receive line\<close>

lemma asciiSpace_encodings:
  "c \<in> {CHR 0x09, CHR 0x0A, CHR 0x0B, CHR 0x0C, CHR 0x0D, CHR 0x20} \<Longrightarrow> [c] \<in> set spaceEncodings"
  by (auto simp: spaceEncodings_def)

lemma leadingSpace_zero_hd:
  assumes "leadingSpace s = 0" and "s \<noteq> []"
  shows "hd s \<notin> {CHR 0x09, CHR 0x0A, CHR 0x0B, CHR 0x0C, CHR 0x0D, CHR 0x20}"
proof
  assume "hd s \<in> {CHR 0x09, CHR 0x0A, CHR 0x0B, CHR 0x0C, CHR 0x0D, CHR 0x20}"
  then have "[hd s] \<in> set spaceEncodings" by (rule asciiSpace_encodings)
  moreover have "prefix [hd s] s" using assms(2) by (cases s) simp_all
  ultimately show False using assms(1) by (auto simp: leadingSpace_zero_iff)
qed

lemma trailingSpace_zero_last:
  assumes "trailingSpace s = 0" and "s \<noteq> []"
  shows "last s \<notin> {CHR 0x09, CHR 0x0A, CHR 0x0B, CHR 0x0C, CHR 0x0D, CHR 0x20}"
proof
  assume "last s \<in> {CHR 0x09, CHR 0x0A, CHR 0x0B, CHR 0x0C, CHR 0x0D, CHR 0x20}"
  then have "[last s] \<in> set spaceEncodings" by (rule asciiSpace_encodings)
  moreover have "suffix [last s] s"
    using assms(2) append_butlast_last_id[of s] by (metis suffixI)
  ultimately show False using assms(1) by (auto simp: trailingSpace_zero_iff)
qed

text \<open>
  Claim C10, as the code has it. For every line an outgoing handler reads from its socket
  and passes on, the payload of the receive line is not the raw line but the line with
  its leading and trailing white space removed, the newline at its end and a carriage
  return before it included: the payload neither starts nor ends with white space.
\<close>

theorem outgoing_payload_trimmed:
  fixes i :: outgoing_input
  assumes "og_err i = None" and "\<not> failed w" and "buffered w = []"
    and "og_write_ok i" and "og_flush_ok i"
  shows "outgoing_body port c b w i
           = (Continue, b\<lparr>out := out b @ [Sprintf3 prefixReceive port (TrimSpace (og_data i))]\<rparr>, w)
       \<and> leadingSpace (TrimSpace (og_data i)) = 0
       \<and> trailingSpace (TrimSpace (og_data i)) = 0
       \<and> (TrimSpace (og_data i) \<noteq> [] \<longrightarrow>
            hd (TrimSpace (og_data i))
              \<notin> {CHR 0x09, CHR 0x0A, CHR 0x0B, CHR 0x0C, CHR 0x0D, CHR 0x20}
            \<and> last (TrimSpace (og_data i))
              \<notin> {CHR 0x09, CHR 0x0A, CHR 0x0B, CHR 0x0C, CHR 0x0D, CHR 0x20})"
proof -
  have "outgoing_body port c b w i
      = (Continue, b\<lparr>out := out b @ [Sprintf3 prefixReceive port (TrimSpace (og_data i))]\<rparr>, w)"
    using assms
    by (simp add: outgoing_body_def WriteString_def Flush_def Let_def Sprintf3_nonempty)
  then show ?thesis
    using leadingSpace_zero_hd[OF leadingSpace_TrimSpace, of "og_data i"]
      trailingSpace_zero_last[OF trailingSpace_TrimSpace, of "og_data i"]
    by (simp add: leadingSpace_TrimSpace trailingSpace_TrimSpace)
qed

theorem outgoing_payload_trimmed_witness:
  "og_err \<lparr>og_data = [CHR 0x20, CHR ''h'', CHR ''i'', CHR 0x09, CHR 0x0D, CHR 0x0A],
           og_err = None, og_write_ok = True, og_flush_ok = True\<rparr> = None
   \<and> \<not> failed NewWriter \<and> buffered NewWriter = []
   \<and> TrimSpace [CHR 0x20, CHR ''h'', CHR ''i'', CHR 0x09, CHR 0x0D, CHR 0x0A] = ''hi''
   \<and> out (fst (snd (outgoing_body ''80'' 0 New NewWriter
        \<lparr>og_data = [CHR 0x20, CHR ''h'', CHR ''i'', CHR 0x09, CHR 0x0D, CHR 0x0A],
          og_err = None, og_write_ok = True, og_flush_ok = True\<rparr>))) = [''r:80:hi\<newline>'']"
proof -
  let ?d = "[CHR 0x20, CHR ''h'', CHR ''i'', CHR 0x09, CHR 0x0D, CHR 0x0A]"
  let ?i = "\<lparr>og_data = ?d, og_err = None, og_write_ok = True, og_flush_ok = True\<rparr>"
  have h1: "og_err ?i = None" and h4: "og_write_ok ?i" and h5: "og_flush_ok ?i" by simp_all
  have h2: "\<not> failed NewWriter" and h3: "buffered NewWriter = []"
    by (simp_all add: NewWriter_def)
  have t: "TrimSpace ?d = ''hi''" by (simp add: trim_defs)
  note T = outgoing_payload_trimmed[OF h1 h2 h3 h4 h5, of "''80''" 0 New]
  have "out (fst (snd (outgoing_body ''80'' 0 New NewWriter ?i))) = [''r:80:hi\<newline>'']"
    using T[THEN conjunct1] t by (simp add: New_def line_defs)
  with h1 h2 h3 t show ?thesis by simp
qed

text \<open>
  The claim as stated keeps every carriage return out of the payload. One inside the
  line is not at its ends and stays: the line \<open>a\<close>, carriage return, \<open>b\<close> is passed
  on with it.
\<close>

theorem outgoing_payload_inner_carriage_return:
  "out (fst (snd (outgoing_body ''80'' 0 New NewWriter
        \<lparr>og_data = [CHR ''a'', CHR 0x0D, CHR ''b'', CHR 0x0A],
          og_err = None, og_write_ok = True, og_flush_ok = True\<rparr>)))
     = [''r:80:'' @ [CHR ''a'', CHR 0x0D, CHR ''b''] @ ''\<newline>'']
   \<and> CHR 0x0D \<in> set [CHR ''a'', CHR 0x0D, CHR ''b'']"
proof -
  have "TrimSpace [CHR ''a'', CHR 0x0D, CHR ''b'', CHR 0x0A] = [CHR ''a'', CHR 0x0D, CHR ''b'']"
    by (simp add: trim_defs)
  then show ?thesis
    by (simp add: outgoing_body_def writer_defs line_defs New_def Let_def)
qed


section \<open>Connect, receive and disconnect lines of a connection\<close>








subsection \<open>Lines about a port\<close>












subsection \<open>What one event does to the output stream and to the handlers\<close>








subsection \<open>The invariant of the lines about a port\<close>





















end
